theory Spec2Isabelle
  imports
    Main
    "HOL-Library.AList"
    "HOL-Library.FSet"
    "HOL-Library.Sublist"
    "HOL-Library.Char_ord"
    "HOL-Library.List_Lexorder"
begin

section \<open>Values read from a Kismet JSON log\<close>

text \<open>
  The program \<^verbatim>\<open>kismet_interactive_diff.py\<close> reads two logs of newline-delimited JSON
  objects, builds three dictionaries from each and prints what differs. This theory
  embeds the analysis part (lines 68--103 and 114--194 of the source).

  Python strings are modelled by \<open>string\<close>, read as the UTF-8 bytes of the text: byte-wise
  lexicographic order on UTF-8 is the code point order that Python's \<open>sorted\<close> uses,
  emptiness and substring tests agree as well.

  The free-form fields of a record (name, channel, crypt set) hold a scalar JSON value:
  \<open>null\<close>, a boolean, an integer, a float or a string. Arrays and objects in these
  fields are outside the model, and so are records whose MAC address or device type is
  not a string or whose probed-SSID map is not an object.
\<close>

text \<open>
  A Python \<open>float\<close> as \<open>json.loads\<close> produces it: a finite number, or one of the three
  values that the literals \<open>Infinity\<close>, \<open>-Infinity\<close> and \<open>NaN\<close> decode to. A finite float
  is given by its exact value together with the text that \<open>str\<close> returns for it; the
  digits that \<open>str\<close> chooses are not modelled, and no property below depends on them.
\<close>

datatype pyfloat = Float_finite rat string | Float_inf | Float_neg_inf | Float_nan

datatype jval = JNull | JBool bool | JInt int | JFloat pyfloat | JStr string

text \<open>
  Python's \<open>==\<close> on these values. \<open>bool\<close> is a subtype of \<open>int\<close>, so \<open>True == 1\<close>; integers
  and floats are compared by their exact values, so \<open>1 == 1.0\<close>; \<open>nan\<close> equals nothing,
  not even itself; a string never equals a number, \<open>None\<close> equals only itself.
\<close>

datatype pynum = Num rat | Num_inf | Num_neg_inf | Num_nan

fun py_num :: "jval \<Rightarrow> pynum option" where
  "py_num (JBool b) = Some (Num (if b then 1 else 0))"
| "py_num (JInt i) = Some (Num (of_int i))"
| "py_num (JFloat (Float_finite q s)) = Some (Num q)"
| "py_num (JFloat Float_inf) = Some Num_inf"
| "py_num (JFloat Float_neg_inf) = Some Num_neg_inf"
| "py_num (JFloat Float_nan) = Some Num_nan"
| "py_num JNull = None"
| "py_num (JStr s) = None"

fun py_eq :: "jval \<Rightarrow> jval \<Rightarrow> bool" where
  "py_eq JNull JNull = True"
| "py_eq (JStr s) (JStr t) = (s = t)"
| "py_eq JNull b = False"
| "py_eq (JStr s) b = False"
| "py_eq a JNull = False"
| "py_eq a (JStr t) = False"
| "py_eq a b =
     (case (py_num a, py_num b) of
        (Some x, Some y) \<Rightarrow> x = y \<and> x \<noteq> Num_nan
      | _ \<Rightarrow> False)"

definition py_ne :: "jval \<Rightarrow> jval \<Rightarrow> bool" where
  "py_ne a b = (\<not> py_eq a b)"

text \<open>Python's \<open>str\<close> on these values.\<close>

function str_of_nat :: "nat \<Rightarrow> string" where
  "str_of_nat n =
     (if n < 10 then [''0123456789'' ! n]
      else str_of_nat (n div 10) @ [''0123456789'' ! (n mod 10)])"
  by pat_completeness auto
termination
  by (relation "measure (\<lambda>n. n)") auto

declare str_of_nat.simps [simp del]

fun float_str :: "pyfloat \<Rightarrow> string" where
  "float_str (Float_finite q s) = s"
| "float_str Float_inf = ''inf''"
| "float_str Float_neg_inf = ''-inf''"
| "float_str Float_nan = ''nan''"

fun py_str :: "jval \<Rightarrow> string" where
  "py_str (JStr s) = s"
| "py_str (JInt i) = (if i < 0 then ''-'' @ str_of_nat (nat (- i)) else str_of_nat (nat i))"
| "py_str (JFloat f) = float_str f"
| "py_str (JBool b) = (if b then ''True'' else ''False'')"
| "py_str JNull = ''None''"

section \<open>Device records and the three dictionaries\<close>

text \<open>
  One decoded log line. Each field is what \<open>device.get(key)\<close> finds: \<open>None\<close> when the key
  is absent. The MAC address and the device type are strings when present, and the
  probed-SSID map is a JSON object, of which only the keys are read (a Python \<open>dict\<close>,
  so the keys are given as a list without an order that matters).
\<close>

record device =
  kismet_device_base_macaddr :: "string option"
  kismet_device_base_type :: "string option"
  kismet_device_base_name :: "jval option"
  kismet_common_channel :: "jval option"
  dot11_network_crypt_set :: "jval option"
  dot11_client_probed_ssid_map :: "string list option"

text \<open>The dictionary literal \<open>{'ssid': .., 'channel': .., 'crypt': ..}\<close> stored per access
  point, and \<open>{'probed_ssids': ..}\<close> stored per client. A Python \<open>set\<close> is a finite set.\<close>

record ap =
  ssid :: jval
  channel :: jval
  crypt :: string

record client =
  probed_ssids :: "string fset"

text \<open>
  The three dictionaries that \<open>parse_kismet_log\<close> creates and \<open>_process_device\<close> mutates.
  A Python \<open>dict\<close> is an association list with distinct keys; assignment \<open>d[k] = v\<close> is
  \<open>AList.update\<close>, which replaces the value of an existing key in place and appends a new
  key at the end.
\<close>

record inventory =
  aps :: "(string \<times> ap) list"
  clients :: "(string \<times> client) list"
  probed_ssid_map :: "(string \<times> string fset) list"

definition empty_inventory :: inventory where
  "empty_inventory = \<lparr>aps = [], clients = [], probed_ssid_map = []\<rparr>"

definition keys :: "('k \<times> 'v) list \<Rightarrow> 'k set" where
  "keys d = set (map fst d)"

text \<open>Reading \<open>d[k]\<close> from a \<open>defaultdict(set)\<close>: a missing key stands for the empty set.\<close>

definition dd_get :: "(string \<times> string fset) list \<Rightarrow> string \<Rightarrow> string fset" where
  "dd_get d k = (case map_of d k of None \<Rightarrow> {||} | Some s \<Rightarrow> s)"

text \<open>Python's truth value of \<open>device.get(key)\<close> for a string field: \<open>None\<close> and \<open>''\<close> are
  false.\<close>

fun truthy :: "string option \<Rightarrow> bool" where
  "truthy None = False"
| "truthy (Some s) = (s \<noteq> [])"

text \<open>\<open>device.get(key, default)\<close>.\<close>

definition get_default :: "'a option \<Rightarrow> 'a \<Rightarrow> 'a" where
  "get_default v d = (case v of None \<Rightarrow> d | Some x \<Rightarrow> x)"

section \<open>The inventory builder\<close>

text \<open>Lines 81--83: \<open>for probe in probes: if probe: probed_ssid_map[probe].add(mac)\<close>.
  The loop runs over the elements of the set \<open>probes\<close> in the order of the list it was
  made from; the resulting dictionary does not depend on the order.\<close>

fun add_probes :: "string \<Rightarrow> string list \<Rightarrow> (string \<times> string fset) list
    \<Rightarrow> (string \<times> string fset) list" where
  "add_probes mac [] m = m"
| "add_probes mac (probe # ps) m =
     add_probes mac ps
       (if probe \<noteq> [] then AList.update probe (finsert mac (dd_get m probe)) m else m)"

text \<open>Lines 68--83, \<open>_process_device\<close>. The mutated dictionaries are returned. The last
  case of the model is not reached: a true field is present.\<close>

definition process_device :: "device \<Rightarrow> inventory \<Rightarrow> inventory" where
  "process_device dev st =
     (if \<not> truthy (kismet_device_base_macaddr dev) \<or> \<not> truthy (kismet_device_base_type dev)
      then st
      else case (kismet_device_base_macaddr dev, kismet_device_base_type dev) of
        (Some mac, Some dev_type) \<Rightarrow>
          if dev_type = ''Wi-Fi AP'' then
            (let ssid = get_default (kismet_device_base_name dev) (JStr ''N/A'');
                 channel = get_default (kismet_common_channel dev) (JStr ''N/A'');
                 crypt_set = get_default (dot11_network_crypt_set dev) (JStr ''Unknown'')
             in st\<lparr>aps := AList.update mac
                    \<lparr>ssid = ssid, channel = channel, crypt = py_str crypt_set\<rparr> (aps st)\<rparr>)
          else if sublist ''Wi-Fi'' dev_type \<and> dev_type \<noteq> ''Wi-Fi AP'' then
            (let probes = get_default (dot11_client_probed_ssid_map dev) []
             in st\<lparr>clients := AList.update mac \<lparr>probed_ssids = fset_of_list probes\<rparr> (clients st),
                    probed_ssid_map := add_probes mac probes (probed_ssid_map st)\<rparr>)
          else st
      | _ \<Rightarrow> st)"

text \<open>Lines 89--103, \<open>parse_kismet_log\<close>, over the lines of the file: \<open>None\<close> is a line on
  which \<open>json.loads\<close> raises \<open>JSONDecodeError\<close>, which the loop skips; every other line
  decodes to an object. Opening the file is not modelled.\<close>

fun parse_lines :: "device option list \<Rightarrow> inventory \<Rightarrow> inventory" where
  "parse_lines [] st = st"
| "parse_lines (None # ls) st = parse_lines ls st"
| "parse_lines (Some dev # ls) st = parse_lines ls (process_device dev st)"

definition parse_kismet_log :: "device option list \<Rightarrow> inventory" where
  "parse_kismet_log ls = parse_lines ls empty_inventory"

section \<open>The reports\<close>

text \<open>
  The report functions print. The model returns what is printed inside the loops, one
  entry per printed line or group of lines, holding the values that the line
  interpolates; the count lines print the lengths of these lists. A dictionary lookup
  \<open>d[k]\<close> of a missing key raises \<open>KeyError\<close>, which is a result of the model.
\<close>

datatype py_error = KeyError

text \<open>Lines 122--123 and 125--126: \<open>for mac in ..: print(mac, d[mac]['ssid'])\<close>.\<close>

fun ap_lines :: "(string \<times> ap) list \<Rightarrow> string list \<Rightarrow> py_error + (string \<times> jval) list" where
  "ap_lines d [] = Inr []"
| "ap_lines d (mac # macs) =
     (case map_of d mac of
        None \<Rightarrow> Inl KeyError
      | Some a \<Rightarrow>
          (case ap_lines d macs of
             Inl e \<Rightarrow> Inl e
           | Inr r \<Rightarrow> Inr ((mac, ssid a) # r)))"

record membership_report =
  new_aps :: "(string \<times> jval) list"
  missing_aps :: "(string \<times> jval) list"
  new_clients :: "string list"
  missing_clients :: "string list"

text \<open>Lines 114--134, \<open>report_new_and_missing\<close>.\<close>

definition report_new_and_missing ::
  "(string \<times> ap) list \<Rightarrow> (string \<times> ap) list \<Rightarrow> (string \<times> client) list
   \<Rightarrow> (string \<times> client) list \<Rightarrow> py_error + membership_report" where
  "report_new_and_missing baseline_aps comp_aps baseline_clients comp_clients =
     (let new_aps = keys comp_aps - keys baseline_aps;
          missing_aps = keys baseline_aps - keys comp_aps;
          new_clients = keys comp_clients - keys baseline_clients;
          missing_clients = keys baseline_clients - keys comp_clients
      in case ap_lines comp_aps (sorted_list_of_set new_aps) of
           Inl e \<Rightarrow> Inl e
         | Inr new_lines \<Rightarrow>
             (case ap_lines baseline_aps (sorted_list_of_set missing_aps) of
                Inl e \<Rightarrow> Inl e
              | Inr missing_lines \<Rightarrow>
                  Inr \<lparr>new_aps = new_lines, missing_aps = missing_lines,
                       new_clients = sorted_list_of_set new_clients,
                       missing_clients = sorted_list_of_set missing_clients\<rparr>))"

text \<open>Lines 154--162, \<open>_get_ap_changes\<close>. Each of the three message templates is a
  constructor holding the two interpolated values.\<close>

datatype change =
  SSID_changed jval jval
| Channel_changed jval jval
| Encryption_changed string string

definition get_ap_changes :: "ap \<Rightarrow> ap \<Rightarrow> change list" where
  "get_ap_changes base_ap comp_ap =
     (let changes = [];
          changes = (if py_ne (ssid base_ap) (ssid comp_ap)
                     then changes @ [SSID_changed (ssid base_ap) (ssid comp_ap)] else changes);
          changes = (if py_ne (channel base_ap) (channel comp_ap)
                     then changes @ [Channel_changed (channel base_ap) (channel comp_ap)]
                     else changes);
          changes = (if crypt base_ap \<noteq> crypt comp_ap
                     then changes @ [Encryption_changed (crypt base_ap) (crypt comp_ap)]
                     else changes)
      in changes)"

text \<open>Lines 145--152, the loop of \<open>_report_ap_changes\<close>: an entry is the header line (MAC
  and baseline SSID) with the change lines under it.\<close>

fun ap_change_lines :: "(string \<times> ap) list \<Rightarrow> (string \<times> ap) list \<Rightarrow> string list
    \<Rightarrow> py_error + (string \<times> jval \<times> change list) list" where
  "ap_change_lines baseline_aps comp_aps [] = Inr []"
| "ap_change_lines baseline_aps comp_aps (mac # macs) =
     (case map_of baseline_aps mac of
        None \<Rightarrow> Inl KeyError
      | Some base_ap \<Rightarrow>
          (case map_of comp_aps mac of
             None \<Rightarrow> Inl KeyError
           | Some comp_ap \<Rightarrow>
               (let changes = get_ap_changes base_ap comp_ap
                in case ap_change_lines baseline_aps comp_aps macs of
                     Inl e \<Rightarrow> Inl e
                   | Inr r \<Rightarrow>
                       Inr (if changes \<noteq> [] then (mac, ssid base_ap, changes) # r else r))))"

text \<open>Lines 142--152, \<open>_report_ap_changes\<close>.\<close>

definition report_ap_changes :: "(string \<times> ap) list \<Rightarrow> (string \<times> ap) list
    \<Rightarrow> py_error + (string \<times> jval \<times> change list) list" where
  "report_ap_changes baseline_aps comp_aps =
     (let common_aps = keys baseline_aps \<inter> keys comp_aps
      in ap_change_lines baseline_aps comp_aps (sorted_list_of_set common_aps))"

text \<open>Lines 177--180, \<open>_get_client_probe_changes\<close>.\<close>

definition get_client_probe_changes :: "client \<Rightarrow> client \<Rightarrow> string fset \<times> string fset" where
  "get_client_probe_changes base_client comp_client =
     (let added_probes = probed_ssids comp_client |-| probed_ssids base_client;
          removed_probes = probed_ssids base_client |-| probed_ssids comp_client
      in (added_probes, removed_probes))"

text \<open>Lines 167--175, the loop of \<open>_report_client_changes\<close>: an entry is the client line with
  the sorted added and the sorted removed names; the line of an empty list is not
  printed.\<close>

fun client_change_lines :: "(string \<times> client) list \<Rightarrow> (string \<times> client) list \<Rightarrow> string list
    \<Rightarrow> py_error + (string \<times> string list \<times> string list) list" where
  "client_change_lines baseline_clients comp_clients [] = Inr []"
| "client_change_lines baseline_clients comp_clients (mac # macs) =
     (case map_of baseline_clients mac of
        None \<Rightarrow> Inl KeyError
      | Some base_client \<Rightarrow>
          (case map_of comp_clients mac of
             None \<Rightarrow> Inl KeyError
           | Some comp_client \<Rightarrow>
               (case get_client_probe_changes base_client comp_client of
                  (added_probes, removed_probes) \<Rightarrow>
                    (case client_change_lines baseline_clients comp_clients macs of
                       Inl e \<Rightarrow> Inl e
                     | Inr r \<Rightarrow>
                         Inr (if added_probes \<noteq> {||} \<or> removed_probes \<noteq> {||}
                              then (mac, sorted_list_of_fset added_probes,
                                    sorted_list_of_fset removed_probes) # r
                              else r)))))"

text \<open>Lines 164--175, \<open>_report_client_changes\<close>.\<close>

definition report_client_changes :: "(string \<times> client) list \<Rightarrow> (string \<times> client) list
    \<Rightarrow> py_error + (string \<times> string list \<times> string list) list" where
  "report_client_changes baseline_clients comp_clients =
     (let common_clients = keys baseline_clients \<inter> keys comp_clients
      in client_change_lines baseline_clients comp_clients (sorted_list_of_set common_clients))"

text \<open>Lines 136--140, \<open>report_environmental_changes\<close>.\<close>

definition report_environmental_changes ::
  "(string \<times> ap) list \<Rightarrow> (string \<times> ap) list \<Rightarrow> (string \<times> client) list
   \<Rightarrow> (string \<times> client) list
   \<Rightarrow> py_error + (string \<times> jval \<times> change list) list \<times> (string \<times> string list \<times> string list) list"
  where
  "report_environmental_changes baseline_aps comp_aps baseline_clients comp_clients =
     (case report_ap_changes baseline_aps comp_aps of
        Inl e \<Rightarrow> Inl e
      | Inr ap_part \<Rightarrow>
          (case report_client_changes baseline_clients comp_clients of
             Inl e \<Rightarrow> Inl e
           | Inr client_part \<Rightarrow> Inr (ap_part, client_part)))"

text \<open>Lines 182--194, \<open>report_probed_ssid_analysis\<close>. Reading a \<open>defaultdict\<close> never raises.\<close>

record probed_report =
  newly_probed_ssids :: "(string \<times> string list) list"
  no_longer_probed_ssids :: "string list"

definition report_probed_ssid_analysis ::
  "(string \<times> string fset) list \<Rightarrow> (string \<times> string fset) list \<Rightarrow> probed_report" where
  "report_probed_ssid_analysis baseline_probes comp_probes =
     (let newly_probed_ssids = keys comp_probes - keys baseline_probes;
          no_longer_probed_ssids = keys baseline_probes - keys comp_probes
      in \<lparr>newly_probed_ssids =
             map (\<lambda>ssid. (ssid, sorted_list_of_fset (dd_get comp_probes ssid)))
               (sorted_list_of_set newly_probed_ssids),
           no_longer_probed_ssids = sorted_list_of_set no_longer_probed_ssids\<rparr>)"

section \<open>Notions used to state the properties\<close>

text \<open>Which branch of \<open>_process_device\<close> a line takes: the MAC address under which it is
  stored as an access point, or as a client.\<close>

fun ap_mac :: "device option \<Rightarrow> string option" where
  "ap_mac None = None"
| "ap_mac (Some dev) =
     (case (kismet_device_base_macaddr dev, kismet_device_base_type dev) of
        (Some mac, Some dev_type) \<Rightarrow>
          if mac \<noteq> [] \<and> dev_type = ''Wi-Fi AP'' then Some mac else None
      | _ \<Rightarrow> None)"

fun client_mac :: "device option \<Rightarrow> string option" where
  "client_mac None = None"
| "client_mac (Some dev) =
     (case (kismet_device_base_macaddr dev, kismet_device_base_type dev) of
        (Some mac, Some dev_type) \<Rightarrow>
          if mac \<noteq> [] \<and> sublist ''Wi-Fi'' dev_type \<and> dev_type \<noteq> ''Wi-Fi AP''
          then Some mac else None
      | _ \<Rightarrow> None)"

fun client_macs :: "device option list \<Rightarrow> string list" where
  "client_macs [] = []"
| "client_macs (l # ls) =
     (case client_mac l of None \<Rightarrow> client_macs ls | Some m \<Rightarrow> m # client_macs ls)"

definition probes_of :: "device \<Rightarrow> string list" where
  "probes_of dev = get_default (dot11_client_probed_ssid_map dev) []"

text \<open>The float \<open>nan\<close>, the one value that Python's \<open>!=\<close> tells apart from itself.\<close>

fun is_nan :: "jval \<Rightarrow> bool" where
  "is_nan (JFloat Float_nan) = True"
| "is_nan v = False"

text \<open>The two directions of "the index is the inverse of the clients' probe sets".\<close>

definition index_complete :: "inventory \<Rightarrow> bool" where
  "index_complete st \<longleftrightarrow>
     (\<forall>c cl n. map_of (clients st) c = Some cl \<longrightarrow> n |\<in>| probed_ssids cl \<longrightarrow> n \<noteq> []
        \<longrightarrow> c |\<in>| dd_get (probed_ssid_map st) n)"

definition index_sound :: "inventory \<Rightarrow> bool" where
  "index_sound st \<longleftrightarrow>
     (\<forall>n m. m |\<in>| dd_get (probed_ssid_map st) n
        \<longrightarrow> (\<exists>cl. map_of (clients st) m = Some cl \<and> n |\<in>| probed_ssids cl))"

text \<open>Log lines for the examples: an access point and a client as Kismet reports them.\<close>

definition ap_rec :: "string \<Rightarrow> jval option \<Rightarrow> jval option \<Rightarrow> jval option \<Rightarrow> device" where
  "ap_rec mac name chan cs = \<lparr>kismet_device_base_macaddr = Some mac,
     kismet_device_base_type = Some ''Wi-Fi AP'', kismet_device_base_name = name,
     kismet_common_channel = chan, dot11_network_crypt_set = cs,
     dot11_client_probed_ssid_map = None\<rparr>"

definition client_rec :: "string \<Rightarrow> string list \<Rightarrow> device" where
  "client_rec mac ps = \<lparr>kismet_device_base_macaddr = Some mac,
     kismet_device_base_type = Some ''Wi-Fi Client'', kismet_device_base_name = None,
     kismet_common_channel = None, dot11_network_crypt_set = None,
     dot11_client_probed_ssid_map = Some ps\<rparr>"

text \<open>Two snapshots for the examples: dictionaries as the builder leaves them.\<close>

definition baseline_aps_ex :: "(string \<times> ap) list" where
  "baseline_aps_ex =
     [(''EE:EE'', \<lparr>ssid = JStr ''Old'', channel = JStr ''1'', crypt = ''0''\<rparr>),
      (''AA:AA'', \<lparr>ssid = JStr ''Cafe'', channel = JStr ''6'', crypt = ''2''\<rparr>),
      (''DD:DD'', \<lparr>ssid = JStr ''Lab'', channel = JInt 11, crypt = ''2''\<rparr>)]"

definition comp_aps_ex :: "(string \<times> ap) list" where
  "comp_aps_ex =
     [(''FF:FF'', \<lparr>ssid = JStr ''Pop-up'', channel = JStr ''N/A'', crypt = ''Unknown''\<rparr>),
      (''AA:AA'', \<lparr>ssid = JStr ''Cafe2'', channel = JStr ''6'', crypt = ''2''\<rparr>),
      (''CC:CC'', \<lparr>ssid = JStr ''Guest'', channel = JStr ''3'', crypt = ''0''\<rparr>),
      (''DD:DD'', \<lparr>ssid = JStr ''Lab'', channel = JInt 11, crypt = ''2''\<rparr>)]"

definition baseline_clients_ex :: "(string \<times> client) list" where
  "baseline_clients_ex =
     [(''BB:BB'', \<lparr>probed_ssids = {|''Home''|}\<rparr>),
      (''11:11'', \<lparr>probed_ssids = {|''Guest''|}\<rparr>),
      (''22:22'', \<lparr>probed_ssids = {|''Lab''|}\<rparr>)]"

definition comp_clients_ex :: "(string \<times> client) list" where
  "comp_clients_ex =
     [(''33:33'', \<lparr>probed_ssids = {|''Office''|}\<rparr>),
      (''BB:BB'', \<lparr>probed_ssids = {|''Office'', ''Home''|}\<rparr>),
      (''22:22'', \<lparr>probed_ssids = {|''Lab''|}\<rparr>)]"

definition baseline_probes_ex :: "(string \<times> string fset) list" where
  "baseline_probes_ex =
     [(''Home'', {|''BB:BB''|}), (''Guest'', {|''11:11''|}), (''Lab'', {|''22:22''|})]"

definition comp_probes_ex :: "(string \<times> string fset) list" where
  "comp_probes_ex =
     [(''Office'', {|''BB:BB'', ''33:33''|}), (''Home'', {|''BB:BB''|}), (''Lab'', {|''22:22''|})]"

section \<open>Facts about the builder\<close>

lemma parse_lines_append: "parse_lines (xs @ ys) st = parse_lines ys (parse_lines xs st)"
  by (induction xs st rule: parse_lines.induct) auto

lemma keys_Nil [simp]: "keys [] = {}"
  by (simp add: keys_def)

lemma keys_update: "keys (AList.update k v m) = insert k (keys m)"
  using dom_update [of k v m] by (simp add: keys_def)

lemma keys_map_of: "k \<in> keys d \<longleftrightarrow> map_of d k \<noteq> None"
  by (simp add: keys_def map_of_eq_None_iff)

lemma finite_keys [simp]: "finite (keys d)"
  by (simp add: keys_def)

lemma dd_get_update: "dd_get (AList.update k v m) n = (if n = k then v else dd_get m n)"
  by (simp add: dd_get_def update_conv')

lemma dd_get_add_probes:
  "dd_get (add_probes mac ps m) n =
     (if n \<in> set ps \<and> n \<noteq> [] then finsert mac (dd_get m n) else dd_get m n)"
  by (induction ps arbitrary: m) (auto simp: dd_get_update)

lemma keys_add_probes: "keys (add_probes mac ps m) = keys m \<union> {p \<in> set ps. p \<noteq> []}"
  by (induction ps arbitrary: m) (auto simp: keys_update)

text \<open>The three ways a record is processed.\<close>

lemma process_device_ap:
  "ap_mac (Some dev) = Some m \<Longrightarrow>
   process_device dev st =
     st\<lparr>aps := AList.update m
       \<lparr>ssid = get_default (kismet_device_base_name dev) (JStr ''N/A''),
        channel = get_default (kismet_common_channel dev) (JStr ''N/A''),
        crypt = py_str (get_default (dot11_network_crypt_set dev) (JStr ''Unknown''))\<rparr>
       (aps st)\<rparr>"
  by (auto simp: process_device_def Let_def split: option.splits if_splits)

lemma process_device_client:
  "client_mac (Some dev) = Some m \<Longrightarrow>
   process_device dev st =
     st\<lparr>clients := AList.update m \<lparr>probed_ssids = fset_of_list (probes_of dev)\<rparr> (clients st),
        probed_ssid_map := add_probes m (probes_of dev) (probed_ssid_map st)\<rparr>"
  by (auto simp: process_device_def probes_of_def Let_def split: option.splits if_splits)

lemma process_device_other:
  "ap_mac (Some dev) = None \<Longrightarrow> client_mac (Some dev) = None \<Longrightarrow> process_device dev st = st"
  by (auto simp: process_device_def Let_def split: option.splits if_splits)

lemma process_device_falsy:
  "\<not> truthy (kismet_device_base_macaddr dev) \<or> \<not> truthy (kismet_device_base_type dev)
   \<Longrightarrow> process_device dev st = st"
  by (simp add: process_device_def)

lemma ap_client_exclusive: "ap_mac l = Some m \<Longrightarrow> client_mac l = None"
  by (cases l) (auto split: option.splits if_splits)

declare ap_mac.simps [simp del] client_mac.simps [simp del]

lemma ap_mac_None [simp]: "ap_mac None = None"
  by (simp add: ap_mac.simps)

lemma client_mac_None [simp]: "client_mac None = None"
  by (simp add: client_mac.simps)

lemma client_macs_append: "client_macs (xs @ ys) = client_macs xs @ client_macs ys"
  by (induction xs) (auto split: option.splits)

lemma process_device_cases:
  obtains (ap) m where "ap_mac (Some dev) = Some m" "client_mac (Some dev) = None"
      "clients (process_device dev st) = clients st"
      "probed_ssid_map (process_device dev st) = probed_ssid_map st"
    | (client) m where "client_mac (Some dev) = Some m"
      "process_device dev st =
        st\<lparr>clients := AList.update m \<lparr>probed_ssids = fset_of_list (probes_of dev)\<rparr> (clients st),
           probed_ssid_map := add_probes m (probes_of dev) (probed_ssid_map st)\<rparr>"
    | (other) "ap_mac (Some dev) = None" "client_mac (Some dev) = None"
      "process_device dev st = st"
proof (cases "ap_mac (Some dev)")
  case (Some m)
  then show ?thesis
    using ap [of m] by (simp add: process_device_ap ap_client_exclusive)
next
  case None
  show ?thesis
  proof (cases "client_mac (Some dev)")
    case (Some m)
    then show ?thesis using client process_device_client by blast
  next
    case N2: None
    with None show ?thesis using other process_device_other by blast
  qed
qed

subsection \<open>Access points\<close>

lemma aps_process_other:
  "ap_mac (Some dev) \<noteq> Some m \<Longrightarrow> map_of (aps (process_device dev st)) m = map_of (aps st) m"
proof (cases "ap_mac (Some dev)")
  case None
  show ?thesis
  proof (cases "client_mac (Some dev)")
    case None
    with \<open>ap_mac (Some dev) = None\<close> show ?thesis by (simp add: process_device_other)
  next
    case (Some c)
    then show ?thesis by (simp add: process_device_client)
  qed
next
  case (Some k)
  assume "ap_mac (Some dev) \<noteq> Some m"
  with Some have "k \<noteq> m" by simp
  with Some show ?thesis by (simp add: process_device_ap update_conv')
qed

lemma aps_parse_lines_other:
  "\<forall>l \<in> set ls. ap_mac l \<noteq> Some m \<Longrightarrow> map_of (aps (parse_lines ls st)) m = map_of (aps st) m"
  by (induction ls st rule: parse_lines.induct) (simp_all add: aps_process_other)

lemma aps_last_record:
  assumes "ap_mac (Some dev) = Some m" and "\<forall>l \<in> set post. ap_mac l \<noteq> Some m"
  shows "map_of (aps (parse_lines (pre @ Some dev # post) st)) m =
    Some \<lparr>ssid = get_default (kismet_device_base_name dev) (JStr ''N/A''),
          channel = get_default (kismet_common_channel dev) (JStr ''N/A''),
          crypt = py_str (get_default (dot11_network_crypt_set dev) (JStr ''Unknown''))\<rparr>"
proof -
  have "parse_lines (pre @ Some dev # post) st
      = parse_lines post (process_device dev (parse_lines pre st))"
    by (simp add: parse_lines_append)
  then show ?thesis
    using assms by (simp add: aps_parse_lines_other process_device_ap update_conv')
qed

subsection \<open>Clients and the probed-SSID index\<close>

lemma index_complete_process:
  assumes "index_complete st"
  shows "index_complete (process_device dev st)"
proof (cases dev st rule: process_device_cases)
  case (ap m)
  with assms show ?thesis by (simp add: index_complete_def)
next
  case (client m)
  with assms show ?thesis
    by (auto simp: index_complete_def update_conv' dd_get_add_probes fset_of_list_elem)
next
  case other
  with assms show ?thesis by simp
qed

lemma index_complete_parse_lines:
  "index_complete st \<Longrightarrow> index_complete (parse_lines ls st)"
  by (induction ls st rule: parse_lines.induct) (simp_all add: index_complete_process)

lemma index_complete_empty: "index_complete empty_inventory"
  by (simp add: index_complete_def empty_inventory_def)

lemma index_mono_process:
  "m |\<in>| dd_get (probed_ssid_map st) n
   \<Longrightarrow> m |\<in>| dd_get (probed_ssid_map (process_device dev st)) n"
  by (cases dev st rule: process_device_cases) (auto simp: dd_get_add_probes)

lemma index_mono_parse_lines:
  "m |\<in>| dd_get (probed_ssid_map st) n
   \<Longrightarrow> m |\<in>| dd_get (probed_ssid_map (parse_lines ls st)) n"
  by (induction ls st rule: parse_lines.induct) (simp_all add: index_mono_process)

lemma records_in_index:
  assumes "Some dev \<in> set ls" "client_mac (Some dev) = Some m"
    "n \<in> set (probes_of dev)" "n \<noteq> []"
  shows "m |\<in>| dd_get (probed_ssid_map (parse_lines ls st)) n"
proof -
  from assms(1) obtain pre post where ls: "ls = pre @ Some dev # post"
    by (auto simp: in_set_conv_decomp)
  have "m |\<in>| dd_get (probed_ssid_map (process_device dev (parse_lines pre st))) n"
    using assms(2-4) by (simp add: process_device_client dd_get_add_probes)
  then show ?thesis
    unfolding ls by (simp add: parse_lines_append index_mono_parse_lines)
qed

lemma index_from_records:
  "m |\<in>| dd_get (probed_ssid_map (parse_lines ls st)) n \<Longrightarrow>
   m |\<in>| dd_get (probed_ssid_map st) n \<or>
   (n \<noteq> [] \<and> (\<exists>dev. Some dev \<in> set ls \<and> client_mac (Some dev) = Some m
       \<and> n \<in> set (probes_of dev)))"
proof (induction ls st rule: parse_lines.induct)
  case (1 st)
  then show ?case by simp
next
  case (2 ls st)
  then show ?case by auto
next
  case (3 dev ls st)
  from "3.prems"
  have "m |\<in>| dd_get (probed_ssid_map (parse_lines ls (process_device dev st))) n"
    by simp
  from "3.IH" [OF this] show ?case
  proof
    assume old: "m |\<in>| dd_get (probed_ssid_map (process_device dev st)) n"
    show ?thesis
    proof (cases dev st rule: process_device_cases)
      case (ap k)
      with old show ?thesis by simp
    next
      case (client k)
      with old show ?thesis
        by (auto simp: dd_get_add_probes split: if_splits)
    next
      case other
      with old show ?thesis by simp
    qed
  next
    assume "n \<noteq> [] \<and> (\<exists>d. Some d \<in> set ls \<and> client_mac (Some d) = Some m
       \<and> n \<in> set (probes_of d))"
    then show ?thesis by auto
  qed
qed

lemma index_keys_process:
  "keys (probed_ssid_map (process_device dev st)) \<subseteq> keys (probed_ssid_map st) \<union> {n. n \<noteq> []}"
  by (cases dev st rule: process_device_cases) (auto simp: keys_add_probes)

lemma index_keys_parse_lines:
  "[] \<notin> keys (probed_ssid_map st) \<Longrightarrow> [] \<notin> keys (probed_ssid_map (parse_lines ls st))"
proof (induction ls st rule: parse_lines.induct)
  case (3 dev ls st)
  then show ?case using index_keys_process [of dev st] by auto
qed simp_all

lemma clients_keys_process:
  "keys (clients (process_device dev st)) =
     keys (clients st) \<union> set (client_macs [Some dev])"
  by (cases dev st rule: process_device_cases) (auto simp: keys_update)

lemma clients_keys_parse_lines:
  "keys (clients (parse_lines ls st)) = keys (clients st) \<union> set (client_macs ls)"
proof (induction ls st rule: parse_lines.induct)
  case (3 dev ls st)
  then show ?case using clients_keys_process [of dev st] by (auto split: option.splits)
qed simp_all

lemma index_sound_distinct:
  "distinct (client_macs ls) \<Longrightarrow> index_sound (parse_lines ls empty_inventory)"
proof (induction ls rule: rev_induct)
  case Nil
  then show ?case by (simp add: index_sound_def empty_inventory_def dd_get_def)
next
  case (snoc l ls)
  let ?st = "parse_lines ls empty_inventory"
  from snoc have IH: "index_sound ?st"
    and new: "\<forall>m. client_mac l = Some m \<longrightarrow> m \<notin> set (client_macs ls)"
    by (auto simp: client_macs_append split: option.splits)
  show ?case
  proof (cases l)
    case None
    with IH show ?thesis by (simp add: parse_lines_append)
  next
    case (Some dev)
    have step: "parse_lines (ls @ [l]) empty_inventory = process_device dev ?st"
      using Some by (simp add: parse_lines_append)
    show ?thesis
    proof (cases dev ?st rule: process_device_cases)
      case (ap k)
      with IH step show ?thesis by (simp add: index_sound_def)
    next
      case (client k)
      with new Some have "k \<notin> set (client_macs ls)" by simp
      then have fresh: "k \<notin> keys (clients ?st)"
        by (simp add: clients_keys_parse_lines empty_inventory_def)
      have "\<exists>cl. map_of (clients (process_device dev ?st)) m = Some cl \<and> n |\<in>| probed_ssids cl"
        if "m |\<in>| dd_get (probed_ssid_map (process_device dev ?st)) n" for n m
      proof (cases "m |\<in>| dd_get (probed_ssid_map ?st) n")
        case True
        with IH obtain cl where cl: "map_of (clients ?st) m = Some cl" "n |\<in>| probed_ssids cl"
          by (auto simp: index_sound_def)
        then have "m \<in> keys (clients ?st)" by (simp add: keys_map_of)
        with fresh have "m \<noteq> k" by auto
        with cl client show ?thesis by (simp add: update_conv')
      next
        case False
        with that client have "m = k" "n \<in> set (probes_of dev)"
          by (auto simp: dd_get_add_probes split: if_splits)
        with client show ?thesis by (simp add: update_conv' fset_of_list_elem)
      qed
      with step show ?thesis by (simp add: index_sound_def)
    next
      case other
      with IH step show ?thesis by simp
    qed
  qed
qed

subsection \<open>The dictionaries as Python sees them\<close>

text \<open>The loop over the set of probed names gives the same dictionary whatever the order
  in which the set is run through.\<close>

lemma map_of_add_probes:
  "map_of (add_probes mac ps m) n =
     (if n \<in> set ps \<and> n \<noteq> [] then Some (finsert mac (dd_get m n)) else map_of m n)"
proof (induction ps arbitrary: m)
  case Nil
  show ?case by simp
next
  case (Cons p ps)
  show ?case
    by (cases "n \<in> set ps") (auto simp: Cons.IH update_conv' dd_get_update)
qed

lemma add_probes_order:
  "set ps = set qs \<Longrightarrow> map_of (add_probes mac ps m) = map_of (add_probes mac qs m)"
  by (rule ext) (simp add: map_of_add_probes)

text \<open>The keys of the built dictionaries are distinct, as those of a \<open>dict\<close> are.\<close>

lemma distinct_add_probes:
  "distinct (map fst m) \<Longrightarrow> distinct (map fst (add_probes mac ps m))"
  by (induction ps arbitrary: m) (simp_all add: distinct_update)

lemma distinct_process_device:
  assumes "distinct (map fst (aps st))" "distinct (map fst (clients st))"
    "distinct (map fst (probed_ssid_map st))"
  shows "distinct (map fst (aps (process_device dev st)))
     \<and> distinct (map fst (clients (process_device dev st)))
     \<and> distinct (map fst (probed_ssid_map (process_device dev st)))"
proof (cases "ap_mac (Some dev)")
  case (Some m)
  with assms show ?thesis
    by (simp add: process_device_ap distinct_update)
next
  case None
  show ?thesis
  proof (cases "client_mac (Some dev)")
    case (Some m)
    with assms show ?thesis
      by (simp add: process_device_client distinct_update distinct_add_probes)
  next
    case N: None
    with None assms show ?thesis
      by (simp add: process_device_other)
  qed
qed

lemma distinct_parse_lines:
  "distinct (map fst (aps st)) \<Longrightarrow> distinct (map fst (clients st))
   \<Longrightarrow> distinct (map fst (probed_ssid_map st))
   \<Longrightarrow> distinct (map fst (aps (parse_lines ls st)))
     \<and> distinct (map fst (clients (parse_lines ls st)))
     \<and> distinct (map fst (probed_ssid_map (parse_lines ls st)))"
proof (induction ls st rule: parse_lines.induct)
  case (3 dev ls st)
  then show ?case
    using distinct_process_device [of st dev] by simp
qed simp_all

lemma distinct_parse_kismet_log:
  "distinct (map fst (aps (parse_kismet_log ls)))
     \<and> distinct (map fst (clients (parse_kismet_log ls)))
     \<and> distinct (map fst (probed_ssid_map (parse_kismet_log ls)))"
  unfolding parse_kismet_log_def
  by (rule distinct_parse_lines) (simp_all add: empty_inventory_def)

section \<open>Properties of the inventory builder\<close>

text \<open>
  Claim C1, as amended. For the inventory built from any sequence of log lines:
  every client with a non-empty name in its \<open>probed_ssids\<close> is listed under that name in
  \<open>probed_ssid_map\<close>; the empty string is not a key of \<open>probed_ssid_map\<close>; a MAC address
  is listed under a name exactly when the name is non-empty and some client record of
  the input with that MAC address has the name among its probed SSIDs; and when no two
  client records of the input carry the same MAC address, every MAC address listed under
  a name has that name in its own \<open>probed_ssids\<close>, so that the index is exactly the
  inverse of the clients' probe sets.
\<close>

theorem probed_index_inverse_amended:
  "index_complete (parse_kismet_log ls)
   \<and> [] \<notin> keys (probed_ssid_map (parse_kismet_log ls))
   \<and> (m |\<in>| dd_get (probed_ssid_map (parse_kismet_log ls)) n \<longleftrightarrow>
        n \<noteq> [] \<and> (\<exists>dev. Some dev \<in> set ls \<and> client_mac (Some dev) = Some m
          \<and> n \<in> set (probes_of dev)))
   \<and> (distinct (client_macs ls) \<longrightarrow> index_sound (parse_kismet_log ls))"
proof (intro conjI)
  show "index_complete (parse_kismet_log ls)"
    by (simp add: parse_kismet_log_def index_complete_parse_lines index_complete_empty)
  show "[] \<notin> keys (probed_ssid_map (parse_kismet_log ls))"
    by (simp add: parse_kismet_log_def index_keys_parse_lines empty_inventory_def)
  show "m |\<in>| dd_get (probed_ssid_map (parse_kismet_log ls)) n \<longleftrightarrow>
        n \<noteq> [] \<and> (\<exists>dev. Some dev \<in> set ls \<and> client_mac (Some dev) = Some m
          \<and> n \<in> set (probes_of dev))"
    using index_from_records [of m ls empty_inventory n]
      records_in_index [of _ ls m n empty_inventory]
    by (auto simp: parse_kismet_log_def empty_inventory_def dd_get_def)
  show "distinct (client_macs ls) \<longrightarrow> index_sound (parse_kismet_log ls)"
    by (simp add: parse_kismet_log_def index_sound_distinct)
qed

text \<open>
  An input with two client records, one access point and an undecodable line, where the
  client MAC addresses differ: the index is sound, and \<open>Home\<close> lists both clients.
\<close>

theorem probed_index_inverse_amended_witness:
  "distinct (client_macs [Some (client_rec ''BB:BB'' [''Home'', '''']),
       Some (ap_rec ''AA:AA'' None None None), None,
       Some (client_rec ''CC:CC'' [''Home'', ''Office''])])
   \<and> index_sound (parse_kismet_log [Some (client_rec ''BB:BB'' [''Home'', '''']),
       Some (ap_rec ''AA:AA'' None None None), None,
       Some (client_rec ''CC:CC'' [''Home'', ''Office''])])
   \<and> index_complete (parse_kismet_log [Some (client_rec ''BB:BB'' [''Home'', '''']),
       Some (ap_rec ''AA:AA'' None None None), None,
       Some (client_rec ''CC:CC'' [''Home'', ''Office''])])
   \<and> dd_get (probed_ssid_map (parse_kismet_log [Some (client_rec ''BB:BB'' [''Home'', '''']),
       Some (ap_rec ''AA:AA'' None None None), None,
       Some (client_rec ''CC:CC'' [''Home'', ''Office''])])) ''Home''
      = {|''BB:BB'', ''CC:CC''|}"
proof -
  let ?ls = "[Some (client_rec ''BB:BB'' [''Home'', '''']),
       Some (ap_rec ''AA:AA'' None None None), None,
       Some (client_rec ''CC:CC'' [''Home'', ''Office''])]"
  have d: "distinct (client_macs ?ls)"
    by code_simp
  have e: "dd_get (probed_ssid_map (parse_kismet_log ?ls)) ''Home'' = {|''BB:BB'', ''CC:CC''|}"
    by code_simp
  from d e probed_index_inverse_amended [of ?ls] show ?thesis
    by blast
qed

text \<open>
  Claim C1 as stated fails: when the same client MAC address occurs in two records, the
  client entry is overwritten by the second record while the index keeps what the first
  one added. After \<open>BB:BB\<close> probing \<open>Home\<close> and then \<open>BB:BB\<close> probing \<open>Office\<close>, the index
  lists \<open>BB:BB\<close> under \<open>Home\<close>, which is not among the probed SSIDs of client \<open>BB:BB\<close>.
\<close>

theorem probed_index_inverse_counterexample:
  "''BB:BB'' |\<in>| dd_get (probed_ssid_map (parse_kismet_log
       [Some (client_rec ''BB:BB'' [''Home'']), Some (client_rec ''BB:BB'' [''Office''])])) ''Home''
   \<and> map_of (clients (parse_kismet_log
       [Some (client_rec ''BB:BB'' [''Home'']), Some (client_rec ''BB:BB'' [''Office''])])) ''BB:BB''
     = Some \<lparr>probed_ssids = {|''Office''|}\<rparr>
   \<and> \<not> index_sound (parse_kismet_log
       [Some (client_rec ''BB:BB'' [''Home'']), Some (client_rec ''BB:BB'' [''Office''])])"
proof -
  let ?R = "parse_kismet_log
       [Some (client_rec ''BB:BB'' [''Home'']), Some (client_rec ''BB:BB'' [''Office''])]"
  have a: "''BB:BB'' |\<in>| dd_get (probed_ssid_map ?R) ''Home''"
    by code_simp
  have b: "map_of (clients ?R) ''BB:BB'' = Some \<lparr>probed_ssids = {|''Office''|}\<rparr>"
    by code_simp
  have "\<not> index_sound ?R"
  proof
    assume "index_sound ?R"
    with a obtain cl where "map_of (clients ?R) ''BB:BB'' = Some cl" "''Home'' |\<in>| probed_ssids cl"
      unfolding index_sound_def by blast
    with b show False by simp
  qed
  with a b show ?thesis by simp
qed

text \<open>
  Claim C4. When several access-point records carry the same MAC address, the entry of
  \<open>aps\<close> for that address holds the fields of the last of them in input order: its name
  and channel (or \<open>N/A\<close>) and the string of its crypt set (or \<open>Unknown\<close>).
\<close>

theorem ap_last_write_wins:
  assumes "ap_mac (Some dev) = Some m" and "\<forall>l \<in> set post. ap_mac l \<noteq> Some m"
  shows "map_of (aps (parse_kismet_log (pre @ Some dev # post))) m =
    Some \<lparr>ssid = get_default (kismet_device_base_name dev) (JStr ''N/A''),
          channel = get_default (kismet_common_channel dev) (JStr ''N/A''),
          crypt = py_str (get_default (dot11_network_crypt_set dev) (JStr ''Unknown''))\<rparr>"
  using aps_last_record [OF assms] by (simp add: parse_kismet_log_def)

text \<open>Two records for \<open>AA:AA\<close> with different names, followed by a client: the entry has
  the later name \<open>Cafe2\<close>.\<close>

theorem ap_last_write_wins_witness:
  "ap_mac (Some (ap_rec ''AA:AA'' (Some (JStr ''Cafe2'')) (Some (JInt 11)) (Some (JInt 2))))
     = Some ''AA:AA''
   \<and> ap_mac (Some (client_rec ''BB:BB'' [''Home''])) \<noteq> Some ''AA:AA''
   \<and> map_of (aps (parse_kismet_log
        ([Some (ap_rec ''AA:AA'' (Some (JStr ''Cafe'')) (Some (JStr ''6'')) (Some (JInt 0)))]
         @ Some (ap_rec ''AA:AA'' (Some (JStr ''Cafe2'')) (Some (JInt 11)) (Some (JInt 2)))
         # [Some (client_rec ''BB:BB'' [''Home''])]))) ''AA:AA''
     = Some \<lparr>ssid = JStr ''Cafe2'', channel = JInt 11, crypt = ''2''\<rparr>"
proof -
  have a: "ap_mac (Some (ap_rec ''AA:AA'' (Some (JStr ''Cafe2'')) (Some (JInt 11)) (Some (JInt 2))))
     = Some ''AA:AA''"
    by code_simp
  have b: "\<forall>l \<in> set [Some (client_rec ''BB:BB'' [''Home''])]. ap_mac l \<noteq> Some ''AA:AA''"
    by code_simp
  have c: "py_str (JInt 2) = ''2''"
    by code_simp
  from ap_last_write_wins [OF a b,
      of "[Some (ap_rec ''AA:AA'' (Some (JStr ''Cafe'')) (Some (JStr ''6'')) (Some (JInt 0)))]"]
    a b c
  show ?thesis
    by (simp add: ap_rec_def get_default_def)
qed

text \<open>
  Claim C9. When the name, the channel or the crypt set of an access-point record is
  absent, the entry built from it holds the marker \<open>N/A\<close>, \<open>N/A\<close> or \<open>Unknown\<close> in that
  field; the entry is a record of all three fields.
\<close>

theorem ap_missing_fields_default:
  assumes "ap_mac (Some dev) = Some m" and "\<forall>l \<in> set post. ap_mac l \<noteq> Some m"
  shows "\<exists>a. map_of (aps (parse_kismet_log (pre @ Some dev # post))) m = Some a
     \<and> (kismet_device_base_name dev = None \<longrightarrow> ssid a = JStr ''N/A'')
     \<and> (kismet_common_channel dev = None \<longrightarrow> channel a = JStr ''N/A'')
     \<and> (dot11_network_crypt_set dev = None \<longrightarrow> crypt a = ''Unknown'')"
  using aps_last_record [OF assms] by (simp add: parse_kismet_log_def get_default_def)

theorem ap_missing_fields_default_witness:
  "ap_mac (Some (ap_rec ''AA:AA'' None None None)) = Some ''AA:AA''
   \<and> ap_mac None \<noteq> Some ''AA:AA''
   \<and> map_of (aps (parse_kismet_log ([] @ Some (ap_rec ''AA:AA'' None None None) # [None])))
        ''AA:AA''
     = Some \<lparr>ssid = JStr ''N/A'', channel = JStr ''N/A'', crypt = ''Unknown''\<rparr>"
proof -
  have a: "ap_mac (Some (ap_rec ''AA:AA'' None None None)) = Some ''AA:AA''"
    by code_simp
  have b: "\<forall>l \<in> set [None]. ap_mac l \<noteq> Some ''AA:AA''"
    by simp
  have c: "kismet_device_base_name (ap_rec ''AA:AA'' None None None) = None"
    "kismet_common_channel (ap_rec ''AA:AA'' None None None) = None"
    "dot11_network_crypt_set (ap_rec ''AA:AA'' None None None) = None"
    by (simp_all add: ap_rec_def)
  from ap_missing_fields_default [OF a b, of "[]"] obtain a' where
    "map_of (aps (parse_kismet_log ([] @ Some (ap_rec ''AA:AA'' None None None) # [None])))
        ''AA:AA'' = Some a'"
    "ssid a' = JStr ''N/A''" "channel a' = JStr ''N/A''" "crypt a' = ''Unknown''"
    using c by auto
  with a b show ?thesis
    by (cases a') simp
qed

text \<open>
  Claim C10. A record whose MAC address or device type is present but the empty string
  is dropped like a record without these fields: processing it leaves \<open>aps\<close>, \<open>clients\<close>
  and \<open>probed_ssid_map\<close> as they were, and the built inventory is the one built without
  the record.
\<close>

theorem empty_identifier_dropped:
  assumes "kismet_device_base_macaddr dev = Some [] \<or> kismet_device_base_type dev = Some []"
  shows "process_device dev st = st
     \<and> parse_kismet_log (pre @ Some dev # post) = parse_kismet_log (pre @ post)"
proof -
  have "process_device dev st' = st'" for st'
    using assms by (auto intro: process_device_falsy)
  then show ?thesis
    by (simp add: parse_kismet_log_def parse_lines_append)
qed

theorem empty_identifier_dropped_witness:
  "kismet_device_base_macaddr (client_rec [] [''Home'']) = Some []
   \<and> parse_kismet_log ([Some (ap_rec ''AA:AA'' None None None)]
        @ Some (client_rec [] [''Home'']) # [Some (client_rec ''BB:BB'' [''Office''])])
     = parse_kismet_log ([Some (ap_rec ''AA:AA'' None None None)]
        @ [Some (client_rec ''BB:BB'' [''Office''])])"
proof -
  have a: "kismet_device_base_macaddr (client_rec [] [''Home'']) = Some []"
    by (simp add: client_rec_def)
  then have "kismet_device_base_macaddr (client_rec [] [''Home'']) = Some []
     \<or> kismet_device_base_type (client_rec [] [''Home'']) = Some []"
    by simp
  from empty_identifier_dropped [where pre = "[Some (ap_rec ''AA:AA'' None None None)]"
      and post = "[Some (client_rec ''BB:BB'' [''Office''])]", OF this] a
  show ?thesis
    by simp
qed

section \<open>Facts about the reports\<close>

lemma get_ap_changes_append:
  "get_ap_changes b c =
     (if py_ne (ssid b) (ssid c) then [SSID_changed (ssid b) (ssid c)] else [])
     @ (if py_ne (channel b) (channel c) then [Channel_changed (channel b) (channel c)] else [])
     @ (if crypt b \<noteq> crypt c then [Encryption_changed (crypt b) (crypt c)] else [])"
  by (simp add: get_ap_changes_def)

lemma ap_lines_ok:
  "set macs \<subseteq> keys d \<Longrightarrow>
   ap_lines d macs = Inr (map (\<lambda>m. (m, ssid (the (map_of d m)))) macs)"
  by (induction macs) (auto simp: keys_map_of)

lemma ap_change_lines_ok:
  "set macs \<subseteq> keys B \<inter> keys C \<Longrightarrow>
   ap_change_lines B C macs =
     Inr (map (\<lambda>m. (m, ssid (the (map_of B m)),
                 get_ap_changes (the (map_of B m)) (the (map_of C m))))
           (filter (\<lambda>m. get_ap_changes (the (map_of B m)) (the (map_of C m)) \<noteq> []) macs))"
  by (induction macs) (auto simp: keys_map_of Let_def)

lemma client_change_lines_ok:
  "set macs \<subseteq> keys B \<inter> keys C \<Longrightarrow>
   client_change_lines B C macs =
     Inr (map (\<lambda>m. (m,
                 sorted_list_of_fset
                   (probed_ssids (the (map_of C m)) |-| probed_ssids (the (map_of B m))),
                 sorted_list_of_fset
                   (probed_ssids (the (map_of B m)) |-| probed_ssids (the (map_of C m)))))
           (filter (\<lambda>m. probed_ssids (the (map_of C m)) |-| probed_ssids (the (map_of B m)) \<noteq> {||}
                       \<or> probed_ssids (the (map_of B m)) |-| probed_ssids (the (map_of C m)) \<noteq> {||})
              macs))"
proof (induction macs)
  case Nil
  show ?case by simp
next
  case (Cons a macs)
  then obtain b c where "map_of B a = Some b" "map_of C a = Some c"
    and "set macs \<subseteq> keys B \<inter> keys C"
    by (auto simp: keys_map_of)
  with Cons.IH show ?case
    by (simp add: get_client_probe_changes_def Let_def)
qed

lemma map_fst_entries: "map fst (map (\<lambda>m. (m, f m)) xs) = xs"
  by (induction xs) simp_all

lemma map_fst_comp_entries [simp]: "map (fst \<circ> (\<lambda>m. (m, f m))) xs = xs"
  by (induction xs) simp_all

lemma image_fst_entries [simp]: "fst ` (\<lambda>m. (m, f m)) ` S = S"
  by force

lemma entry_mem: "(m, v) \<in> set (map (\<lambda>m. (m, f m)) xs) \<longleftrightarrow> m \<in> set xs \<and> v = f m"
  by auto

lemma sorted_keys_list:
  "finite S \<Longrightarrow> sorted (filter P (sorted_list_of_set S))
     \<and> distinct (filter P (sorted_list_of_set S))
     \<and> set (filter P (sorted_list_of_set S)) = {x \<in> S. P x}"
  by (simp add: sorted_wrt_filter)

lemma sorted_list_of_fset_props:
  "sorted (sorted_list_of_fset A) \<and> distinct (sorted_list_of_fset A)
     \<and> set (sorted_list_of_fset A) = fset A"
  by (simp add: sorted_list_of_fset.rep_eq)

lemma report_new_and_missing_eq:
  "report_new_and_missing baseline_aps comp_aps baseline_clients comp_clients =
     Inr \<lparr>new_aps = map (\<lambda>m. (m, ssid (the (map_of comp_aps m))))
                      (sorted_list_of_set (keys comp_aps - keys baseline_aps)),
          missing_aps = map (\<lambda>m. (m, ssid (the (map_of baseline_aps m))))
                      (sorted_list_of_set (keys baseline_aps - keys comp_aps)),
          new_clients = sorted_list_of_set (keys comp_clients - keys baseline_clients),
          missing_clients = sorted_list_of_set (keys baseline_clients - keys comp_clients)\<rparr>"
proof -
  have "set (sorted_list_of_set (keys comp_aps - keys baseline_aps)) \<subseteq> keys comp_aps"
    and "set (sorted_list_of_set (keys baseline_aps - keys comp_aps)) \<subseteq> keys baseline_aps"
    by auto
  then show ?thesis
    by (simp add: report_new_and_missing_def ap_lines_ok Let_def)
qed

lemma report_ap_changes_eq:
  "report_ap_changes B C =
     Inr (map (\<lambda>m. (m, ssid (the (map_of B m)),
                 get_ap_changes (the (map_of B m)) (the (map_of C m))))
           (filter (\<lambda>m. get_ap_changes (the (map_of B m)) (the (map_of C m)) \<noteq> [])
              (sorted_list_of_set (keys B \<inter> keys C))))"
proof -
  have "set (sorted_list_of_set (keys B \<inter> keys C)) \<subseteq> keys B \<inter> keys C"
    by simp
  then show ?thesis
    by (simp add: report_ap_changes_def ap_change_lines_ok Let_def)
qed

lemma report_client_changes_eq:
  "report_client_changes B C =
     Inr (map (\<lambda>m. (m,
                 sorted_list_of_fset
                   (probed_ssids (the (map_of C m)) |-| probed_ssids (the (map_of B m))),
                 sorted_list_of_fset
                   (probed_ssids (the (map_of B m)) |-| probed_ssids (the (map_of C m)))))
           (filter (\<lambda>m. probed_ssids (the (map_of C m)) |-| probed_ssids (the (map_of B m)) \<noteq> {||}
                       \<or> probed_ssids (the (map_of B m)) |-| probed_ssids (the (map_of C m)) \<noteq> {||})
              (sorted_list_of_set (keys B \<inter> keys C))))"
proof -
  have "set (sorted_list_of_set (keys B \<inter> keys C)) \<subseteq> keys B \<inter> keys C"
    by simp
  then show ?thesis
    by (simp add: report_client_changes_def client_change_lines_ok Let_def)
qed

subsection \<open>Comparing a value with itself\<close>

lemma py_ne_self: "py_ne a a \<longleftrightarrow> is_nan a"
proof (cases a)
  case (JFloat f)
  then show ?thesis
    by (cases f) (simp_all add: py_ne_def)
qed (simp_all add: py_ne_def)

lemma get_ap_changes_self:
  "get_ap_changes a a \<noteq> [] \<longleftrightarrow> is_nan (ssid a) \<or> is_nan (channel a)"
  by (simp add: get_ap_changes_append py_ne_self)

lemma report_ap_changes_self:
  "\<exists>r. report_ap_changes A A = Inr r
     \<and> set (map fst r) =
         {m. \<exists>a. map_of A m = Some a \<and> (is_nan (ssid a) \<or> is_nan (channel a))}"
proof -
  let ?P = "\<lambda>m. get_ap_changes (the (map_of A m)) (the (map_of A m)) \<noteq> []"
  have "set (filter ?P (sorted_list_of_set (keys A \<inter> keys A)))
      = {m. \<exists>a. map_of A m = Some a \<and> (is_nan (ssid a) \<or> is_nan (channel a))}"
    by (auto simp: keys_map_of get_ap_changes_self)
  then show ?thesis
    by (simp add: report_ap_changes_eq map_fst_entries)
qed

lemma report_ap_changes_no_nan:
  assumes "\<forall>(m, a) \<in> set A. \<not> is_nan (ssid a) \<and> \<not> is_nan (channel a)"
  shows "report_ap_changes A A = Inr []"
proof -
  from report_ap_changes_self [of A] obtain r where r: "report_ap_changes A A = Inr r"
    "set (map fst r) =
       {m. \<exists>a. map_of A m = Some a \<and> (is_nan (ssid a) \<or> is_nan (channel a))}"
    by blast
  have "{m. \<exists>a. map_of A m = Some a \<and> (is_nan (ssid a) \<or> is_nan (channel a))} = {}"
    using assms by (auto dest: map_of_SomeD)
  with r show ?thesis
    by simp
qed

text \<open>Some comparisons as Python makes them.\<close>

lemma py_eq_examples:
  "py_eq (JBool True) (JInt 1)"
  "py_eq (JInt 1) (JFloat (Float_finite 1 ''1.0''))"
  "py_eq (JFloat Float_inf) (JFloat Float_inf)"
  "\<not> py_eq (JFloat Float_nan) (JFloat Float_nan)"
  "\<not> py_eq (JStr ''6'') (JInt 6)"
  "\<not> py_eq JNull (JBool False)"
  by simp_all

section \<open>Properties of the diff engine\<close>

text \<open>
  Claim C2. For any two snapshots, \<open>report_new_and_missing\<close> returns without error. It
  lists as new the keys of the comparison that are not keys of the baseline, and as
  missing the keys of the baseline that are not keys of the comparison, for access points
  and for clients, each list in ascending lexicographic order without repetition; every
  listed access point comes with the SSID of its entry in the snapshot that has it: the
  comparison for a new one, the baseline for a missing one.
\<close>

theorem membership_diff:
  "\<exists>r. report_new_and_missing baseline_aps comp_aps baseline_clients comp_clients = Inr r
     \<and> sorted (map fst (new_aps r)) \<and> distinct (map fst (new_aps r))
     \<and> set (map fst (new_aps r)) = keys comp_aps - keys baseline_aps
     \<and> (\<forall>(m, s) \<in> set (new_aps r). \<exists>a. map_of comp_aps m = Some a \<and> s = ssid a)
     \<and> sorted (map fst (missing_aps r)) \<and> distinct (map fst (missing_aps r))
     \<and> set (map fst (missing_aps r)) = keys baseline_aps - keys comp_aps
     \<and> (\<forall>(m, s) \<in> set (missing_aps r). \<exists>a. map_of baseline_aps m = Some a \<and> s = ssid a)
     \<and> sorted (new_clients r) \<and> distinct (new_clients r)
     \<and> set (new_clients r) = keys comp_clients - keys baseline_clients
     \<and> sorted (missing_clients r) \<and> distinct (missing_clients r)
     \<and> set (missing_clients r) = keys baseline_clients - keys comp_clients"
proof -
  have pair: "\<forall>(m, s) \<in> set (map (\<lambda>m. (m, ssid (the (map_of d m)))) (sorted_list_of_set (keys d - K))).
      \<exists>a. map_of d m = Some a \<and> s = ssid a" for d :: "(string \<times> ap) list" and K
    by (auto simp: keys_map_of)
  show ?thesis
    unfolding report_new_and_missing_eq
    using pair [of comp_aps "keys baseline_aps"] pair [of baseline_aps "keys comp_aps"]
    by (simp add: map_fst_entries)
qed

text \<open>On the example snapshots: \<open>CC:CC\<close> and \<open>FF:FF\<close> are new, listed in this order with
  their comparison SSIDs; \<open>EE:EE\<close> is missing, with its baseline SSID.\<close>

theorem membership_diff_witness:
  "report_new_and_missing baseline_aps_ex comp_aps_ex baseline_clients_ex comp_clients_ex =
     Inr \<lparr>new_aps = [(''CC:CC'', JStr ''Guest''), (''FF:FF'', JStr ''Pop-up'')],
          missing_aps = [(''EE:EE'', JStr ''Old'')],
          new_clients = [''33:33''], missing_clients = [''11:11'']\<rparr>
   \<and> set (map fst [(''CC:CC'', JStr ''Guest''), (''FF:FF'', JStr ''Pop-up'')])
       = keys comp_aps_ex - keys baseline_aps_ex
   \<and> sorted (map fst [(''CC:CC'', JStr ''Guest''), (''FF:FF'', JStr ''Pop-up'')])"
proof -
  have e: "report_new_and_missing baseline_aps_ex comp_aps_ex baseline_clients_ex comp_clients_ex =
     Inr \<lparr>new_aps = [(''CC:CC'', JStr ''Guest''), (''FF:FF'', JStr ''Pop-up'')],
          missing_aps = [(''EE:EE'', JStr ''Old'')],
          new_clients = [''33:33''], missing_clients = [''11:11'']\<rparr>"
    by code_simp
  from membership_diff [of baseline_aps_ex comp_aps_ex baseline_clients_ex comp_clients_ex]
  obtain r where
    "report_new_and_missing baseline_aps_ex comp_aps_ex baseline_clients_ex comp_clients_ex = Inr r"
    "sorted (map fst (new_aps r))"
    "set (map fst (new_aps r)) = keys comp_aps_ex - keys baseline_aps_ex"
    by blast
  with e show ?thesis
    by simp
qed

text \<open>
  Claim C3. \<open>_get_ap_changes\<close> yields one change for each of SSID, channel and encryption
  whose baseline and comparison values differ under Python's \<open>!=\<close>, holding the two
  values, and nothing else. \<open>_report_ap_changes\<close> returns without error; its entries are
  in ascending order of MAC address without repetition, and a MAC address has an entry
  exactly when it is a key of both snapshots and its two entries have at least one
  changed field; the entry holds the baseline SSID and the changes. A key of only one
  snapshot has no entry.
\<close>

theorem field_change_diff:
  "(SSID_changed x y \<in> set (get_ap_changes base_ap comp_ap) \<longleftrightarrow>
      py_ne (ssid base_ap) (ssid comp_ap) \<and> x = ssid base_ap \<and> y = ssid comp_ap)
   \<and> (Channel_changed x y \<in> set (get_ap_changes base_ap comp_ap) \<longleftrightarrow>
      py_ne (channel base_ap) (channel comp_ap) \<and> x = channel base_ap \<and> y = channel comp_ap)
   \<and> (Encryption_changed u v \<in> set (get_ap_changes base_ap comp_ap) \<longleftrightarrow>
      crypt base_ap \<noteq> crypt comp_ap \<and> u = crypt base_ap \<and> v = crypt comp_ap)
   \<and> distinct (get_ap_changes base_ap comp_ap)
   \<and> (\<exists>r. report_ap_changes baseline_aps comp_aps = Inr r
        \<and> sorted (map fst r) \<and> distinct (map fst r)
        \<and> (\<forall>m s chs. (m, s, chs) \<in> set r \<longleftrightarrow>
              (\<exists>b c. map_of baseline_aps m = Some b \<and> map_of comp_aps m = Some c
                 \<and> s = ssid b \<and> chs = get_ap_changes b c \<and> chs \<noteq> []))
        \<and> (\<forall>m. m \<notin> keys baseline_aps \<inter> keys comp_aps \<longrightarrow> m \<notin> set (map fst r)))"
proof -
  let ?P = "\<lambda>m. get_ap_changes (the (map_of baseline_aps m)) (the (map_of comp_aps m)) \<noteq> []"
  let ?f = "\<lambda>m. (ssid (the (map_of baseline_aps m)),
     get_ap_changes (the (map_of baseline_aps m)) (the (map_of comp_aps m)))"
  let ?L = "filter ?P (sorted_list_of_set (keys baseline_aps \<inter> keys comp_aps))"
  have L: "sorted ?L" "distinct ?L" "set ?L = {m \<in> keys baseline_aps \<inter> keys comp_aps. ?P m}"
    using sorted_keys_list [of "keys baseline_aps \<inter> keys comp_aps" ?P] by simp_all
  have r: "report_ap_changes baseline_aps comp_aps = Inr (map (\<lambda>m. (m, ?f m)) ?L)"
    by (simp add: report_ap_changes_eq)
  have mem: "(m, s, chs) \<in> set (map (\<lambda>m. (m, ?f m)) ?L) \<longleftrightarrow>
      (\<exists>b c. map_of baseline_aps m = Some b \<and> map_of comp_aps m = Some c
         \<and> s = ssid b \<and> chs = get_ap_changes b c \<and> chs \<noteq> [])" for m s chs
    unfolding entry_mem L(3) by (auto simp: keys_map_of)
  have "\<exists>r. report_ap_changes baseline_aps comp_aps = Inr r
        \<and> sorted (map fst r) \<and> distinct (map fst r)
        \<and> (\<forall>m s chs. (m, s, chs) \<in> set r \<longleftrightarrow>
              (\<exists>b c. map_of baseline_aps m = Some b \<and> map_of comp_aps m = Some c
                 \<and> s = ssid b \<and> chs = get_ap_changes b c \<and> chs \<noteq> []))
        \<and> (\<forall>m. m \<notin> keys baseline_aps \<inter> keys comp_aps \<longrightarrow> m \<notin> set (map fst r))"
    unfolding r using L mem by (simp add: map_fst_entries) blast
  moreover have "distinct (get_ap_changes base_ap comp_ap)"
    by (simp add: get_ap_changes_append)
  moreover have "SSID_changed x y \<in> set (get_ap_changes base_ap comp_ap) \<longleftrightarrow>
      py_ne (ssid base_ap) (ssid comp_ap) \<and> x = ssid base_ap \<and> y = ssid comp_ap"
    by (auto simp: get_ap_changes_append)
  moreover have "Channel_changed x y \<in> set (get_ap_changes base_ap comp_ap) \<longleftrightarrow>
      py_ne (channel base_ap) (channel comp_ap) \<and> x = channel base_ap \<and> y = channel comp_ap"
    by (auto simp: get_ap_changes_append)
  moreover have "Encryption_changed u v \<in> set (get_ap_changes base_ap comp_ap) \<longleftrightarrow>
      crypt base_ap \<noteq> crypt comp_ap \<and> u = crypt base_ap \<and> v = crypt comp_ap"
    by (auto simp: get_ap_changes_append)
  ultimately show ?thesis
    by blast
qed

text \<open>On the example snapshots, \<open>AA:AA\<close> is \<open>Cafe\<close> on channel \<open>6\<close> in the baseline and
  \<open>Cafe2\<close> on channel \<open>6\<close> in the comparison: the report is the one change of its SSID.
  The unchanged \<open>DD:DD\<close> and the keys of one snapshot only have no entry. A channel \<open>"6"\<close>
  differs from a channel \<open>6\<close>.\<close>

theorem field_change_diff_witness:
  "report_ap_changes baseline_aps_ex comp_aps_ex =
     Inr [(''AA:AA'', JStr ''Cafe'', [SSID_changed (JStr ''Cafe'') (JStr ''Cafe2'')])]
   \<and> map_of baseline_aps_ex ''AA:AA''
       = Some \<lparr>ssid = JStr ''Cafe'', channel = JStr ''6'', crypt = ''2''\<rparr>
   \<and> map_of comp_aps_ex ''AA:AA''
       = Some \<lparr>ssid = JStr ''Cafe2'', channel = JStr ''6'', crypt = ''2''\<rparr>
   \<and> ''CC:CC'' \<notin> keys baseline_aps_ex \<inter> keys comp_aps_ex
   \<and> py_ne (JStr ''6'') (JInt 6)
   \<and> get_ap_changes \<lparr>ssid = JStr ''Cafe'', channel = JStr ''6'', crypt = ''2''\<rparr>
        \<lparr>ssid = JStr ''Cafe'', channel = JInt 6, crypt = ''2''\<rparr>
       = [Channel_changed (JStr ''6'') (JInt 6)]"
proof -
  have e: "report_ap_changes baseline_aps_ex comp_aps_ex =
     Inr [(''AA:AA'', JStr ''Cafe'', [SSID_changed (JStr ''Cafe'') (JStr ''Cafe2'')])]"
    by code_simp
  have b: "map_of baseline_aps_ex ''AA:AA''
       = Some \<lparr>ssid = JStr ''Cafe'', channel = JStr ''6'', crypt = ''2''\<rparr>"
    by code_simp
  have c: "map_of comp_aps_ex ''AA:AA''
       = Some \<lparr>ssid = JStr ''Cafe2'', channel = JStr ''6'', crypt = ''2''\<rparr>"
    by code_simp
  have k: "''CC:CC'' \<notin> keys baseline_aps_ex \<inter> keys comp_aps_ex"
    by code_simp
  have n: "py_ne (JStr ''6'') (JInt 6)"
    by (simp add: py_ne_def)
  have g: "get_ap_changes \<lparr>ssid = JStr ''Cafe'', channel = JStr ''6'', crypt = ''2''\<rparr>
        \<lparr>ssid = JStr ''Cafe'', channel = JInt 6, crypt = ''2''\<rparr>
       = [Channel_changed (JStr ''6'') (JInt 6)]"
    by code_simp
  from field_change_diff [of "JStr ''6''" "JInt 6"
      "\<lparr>ssid = JStr ''Cafe'', channel = JStr ''6'', crypt = ''2''\<rparr>"
      "\<lparr>ssid = JStr ''Cafe'', channel = JInt 6, crypt = ''2''\<rparr>" _ _
      baseline_aps_ex comp_aps_ex] e b c k n g
  show ?thesis
    by simp
qed

text \<open>
  Claim C5. \<open>_get_client_probe_changes\<close> returns the names probed in the comparison but
  not in the baseline, and the names probed in the baseline but not in the comparison.
  \<open>_report_client_changes\<close> returns without error; its entries are in ascending order of
  MAC address without repetition, and a MAC address has an entry exactly when it is a
  key of both snapshots and at least one of the two sets is non-empty; the entry holds
  the two sets as sorted lists.
\<close>

theorem client_change_diff:
  "get_client_probe_changes base_client comp_client =
     (probed_ssids comp_client |-| probed_ssids base_client,
      probed_ssids base_client |-| probed_ssids comp_client)
   \<and> (\<exists>r. report_client_changes baseline_clients comp_clients = Inr r
        \<and> sorted (map fst r) \<and> distinct (map fst r)
        \<and> (\<forall>m added removed. (m, added, removed) \<in> set r \<longleftrightarrow>
              (\<exists>b c. map_of baseline_clients m = Some b \<and> map_of comp_clients m = Some c
                 \<and> added = sorted_list_of_fset (fst (get_client_probe_changes b c))
                 \<and> removed = sorted_list_of_fset (snd (get_client_probe_changes b c))
                 \<and> (fst (get_client_probe_changes b c) \<noteq> {||}
                     \<or> snd (get_client_probe_changes b c) \<noteq> {||}))))"
proof -
  let ?A = "\<lambda>m. probed_ssids (the (map_of comp_clients m))
      |-| probed_ssids (the (map_of baseline_clients m))"
  let ?R = "\<lambda>m. probed_ssids (the (map_of baseline_clients m))
      |-| probed_ssids (the (map_of comp_clients m))"
  let ?P = "\<lambda>m. ?A m \<noteq> {||} \<or> ?R m \<noteq> {||}"
  let ?f = "\<lambda>m. (sorted_list_of_fset (?A m), sorted_list_of_fset (?R m))"
  let ?L = "filter ?P (sorted_list_of_set (keys baseline_clients \<inter> keys comp_clients))"
  have L: "sorted ?L" "distinct ?L"
    "set ?L = {m \<in> keys baseline_clients \<inter> keys comp_clients. ?P m}"
    using sorted_keys_list [of "keys baseline_clients \<inter> keys comp_clients" ?P] by simp_all
  have r: "report_client_changes baseline_clients comp_clients = Inr (map (\<lambda>m. (m, ?f m)) ?L)"
    by (simp add: report_client_changes_eq)
  have mem: "(m, added, removed) \<in> set (map (\<lambda>m. (m, ?f m)) ?L) \<longleftrightarrow>
      (\<exists>b c. map_of baseline_clients m = Some b \<and> map_of comp_clients m = Some c
         \<and> added = sorted_list_of_fset (fst (get_client_probe_changes b c))
         \<and> removed = sorted_list_of_fset (snd (get_client_probe_changes b c))
         \<and> (fst (get_client_probe_changes b c) \<noteq> {||}
             \<or> snd (get_client_probe_changes b c) \<noteq> {||}))" for m added removed
    unfolding entry_mem L(3) by (auto simp: keys_map_of get_client_probe_changes_def)
  have "\<exists>r. report_client_changes baseline_clients comp_clients = Inr r
        \<and> sorted (map fst r) \<and> distinct (map fst r)
        \<and> (\<forall>m added removed. (m, added, removed) \<in> set r \<longleftrightarrow>
              (\<exists>b c. map_of baseline_clients m = Some b \<and> map_of comp_clients m = Some c
                 \<and> added = sorted_list_of_fset (fst (get_client_probe_changes b c))
                 \<and> removed = sorted_list_of_fset (snd (get_client_probe_changes b c))
                 \<and> (fst (get_client_probe_changes b c) \<noteq> {||}
                     \<or> snd (get_client_probe_changes b c) \<noteq> {||})))"
    unfolding r using L mem by (simp add: map_fst_entries)
  then show ?thesis
    by (simp add: get_client_probe_changes_def)
qed

text \<open>On the example snapshots, \<open>BB:BB\<close> probed \<open>Home\<close> in the baseline and \<open>Home\<close> and
  \<open>Office\<close> in the comparison: \<open>Office\<close> is added and nothing is removed. The unchanged
  \<open>22:22\<close> has no entry.\<close>

theorem client_change_diff_witness:
  "report_client_changes baseline_clients_ex comp_clients_ex = Inr [(''BB:BB'', [''Office''], [])]
   \<and> get_client_probe_changes \<lparr>probed_ssids = {|''Home''|}\<rparr>
        \<lparr>probed_ssids = {|''Office'', ''Home''|}\<rparr> = ({|''Office''|}, {||})"
proof -
  have e: "report_client_changes baseline_clients_ex comp_clients_ex
      = Inr [(''BB:BB'', [''Office''], [])]"
    by code_simp
  have g: "{|''Office'', ''Home''|} |-| {|''Home''|} = {|''Office''|}"
    "{|''Home''|} |-| {|''Office'', ''Home''|} = ({||} :: string fset)"
    by code_simp+
  from client_change_diff [of "\<lparr>probed_ssids = {|''Home''|}\<rparr>"
      "\<lparr>probed_ssids = {|''Office'', ''Home''|}\<rparr>" baseline_clients_ex comp_clients_ex] e g
  show ?thesis
    by simp
qed

text \<open>
  Claim C6. \<open>report_probed_ssid_analysis\<close> lists as newly probed the keys of the
  comparison index that are not keys of the baseline index, in ascending order without
  repetition, each with the sorted list of the client MAC addresses that the comparison
  index holds for it; and as no longer probed the keys of the baseline index that are
  not keys of the comparison index, in ascending order without repetition.
\<close>

theorem probed_name_diff:
  "sorted (map fst (newly_probed_ssids (report_probed_ssid_analysis baseline_probes comp_probes)))
   \<and> distinct (map fst (newly_probed_ssids (report_probed_ssid_analysis baseline_probes comp_probes)))
   \<and> set (map fst (newly_probed_ssids (report_probed_ssid_analysis baseline_probes comp_probes)))
       = keys comp_probes - keys baseline_probes
   \<and> (\<forall>(name, macs) \<in> set (newly_probed_ssids
          (report_probed_ssid_analysis baseline_probes comp_probes)).
        map_of comp_probes name = Some (dd_get comp_probes name)
        \<and> sorted macs \<and> distinct macs \<and> set macs = fset (dd_get comp_probes name))
   \<and> sorted (no_longer_probed_ssids (report_probed_ssid_analysis baseline_probes comp_probes))
   \<and> distinct (no_longer_probed_ssids (report_probed_ssid_analysis baseline_probes comp_probes))
   \<and> set (no_longer_probed_ssids (report_probed_ssid_analysis baseline_probes comp_probes))
       = keys baseline_probes - keys comp_probes"
proof -
  have "map_of comp_probes name = Some (dd_get comp_probes name)"
    if "name \<in> keys comp_probes" for name
    using that by (auto simp: keys_map_of dd_get_def)
  then show ?thesis
    by (auto simp: report_probed_ssid_analysis_def Let_def map_fst_entries o_def
        sorted_list_of_fset_props)
qed

text \<open>On the example indexes, \<open>Office\<close> is newly probed, by \<open>33:33\<close> and \<open>BB:BB\<close> in this
  order, and \<open>Guest\<close> is no longer probed.\<close>

theorem probed_name_diff_witness:
  "report_probed_ssid_analysis baseline_probes_ex comp_probes_ex =
     \<lparr>newly_probed_ssids = [(''Office'', [''33:33'', ''BB:BB''])],
      no_longer_probed_ssids = [''Guest'']\<rparr>
   \<and> set (map fst [(''Office'', [''33:33'', ''BB:BB''])])
       = keys comp_probes_ex - keys baseline_probes_ex
   \<and> set [''Guest''] = keys baseline_probes_ex - keys comp_probes_ex"
proof -
  have e: "report_probed_ssid_analysis baseline_probes_ex comp_probes_ex =
     \<lparr>newly_probed_ssids = [(''Office'', [''33:33'', ''BB:BB''])],
      no_longer_probed_ssids = [''Guest'']\<rparr>"
    by code_simp
  from probed_name_diff [of baseline_probes_ex comp_probes_ex] e show ?thesis
    by simp
qed

text \<open>
  Claim C7. For any two snapshots \<open>A\<close> and \<open>B\<close>, and for access points and for clients,
  no key is reported both as new and as missing, and what is new from \<open>A\<close> to \<open>B\<close> is what
  is missing from \<open>B\<close> to \<open>A\<close>, as the same list with the same SSIDs.
\<close>

theorem membership_diff_swap:
  "\<exists>r r'. report_new_and_missing aps_A aps_B clients_A clients_B = Inr r
     \<and> report_new_and_missing aps_B aps_A clients_B clients_A = Inr r'
     \<and> set (map fst (new_aps r)) \<inter> set (map fst (missing_aps r)) = {}
     \<and> set (new_clients r) \<inter> set (missing_clients r) = {}
     \<and> new_aps r = missing_aps r' \<and> missing_aps r = new_aps r'
     \<and> new_clients r = missing_clients r' \<and> missing_clients r = new_clients r'"
  unfolding report_new_and_missing_eq
  by (auto simp: map_fst_entries)

theorem membership_diff_swap_witness:
  "report_new_and_missing baseline_aps_ex comp_aps_ex baseline_clients_ex comp_clients_ex =
     Inr \<lparr>new_aps = [(''CC:CC'', JStr ''Guest''), (''FF:FF'', JStr ''Pop-up'')],
          missing_aps = [(''EE:EE'', JStr ''Old'')],
          new_clients = [''33:33''], missing_clients = [''11:11'']\<rparr>
   \<and> report_new_and_missing comp_aps_ex baseline_aps_ex comp_clients_ex baseline_clients_ex =
     Inr \<lparr>new_aps = [(''EE:EE'', JStr ''Old'')],
          missing_aps = [(''CC:CC'', JStr ''Guest''), (''FF:FF'', JStr ''Pop-up'')],
          new_clients = [''11:11''], missing_clients = [''33:33'']\<rparr>"
proof -
  have e: "report_new_and_missing baseline_aps_ex comp_aps_ex baseline_clients_ex comp_clients_ex =
     Inr \<lparr>new_aps = [(''CC:CC'', JStr ''Guest''), (''FF:FF'', JStr ''Pop-up'')],
          missing_aps = [(''EE:EE'', JStr ''Old'')],
          new_clients = [''33:33''], missing_clients = [''11:11'']\<rparr>"
    by code_simp
  from membership_diff_swap [of baseline_aps_ex comp_aps_ex baseline_clients_ex comp_clients_ex]
  obtain r r' where
    "report_new_and_missing baseline_aps_ex comp_aps_ex baseline_clients_ex comp_clients_ex = Inr r"
    "report_new_and_missing comp_aps_ex baseline_aps_ex comp_clients_ex baseline_clients_ex = Inr r'"
    "new_aps r = missing_aps r'" "missing_aps r = new_aps r'"
    "new_clients r = missing_clients r'" "missing_clients r = new_clients r'"
    by blast
  with e show ?thesis
    by (cases r') simp
qed

text \<open>
  Claim C8, as amended. Diffing a snapshot against itself reports no new or missing
  access point or client, no client with an added or removed probe, and no newly probed
  or no longer probed name. It reports an access point as changed exactly when the SSID
  or the channel of its entry is the float \<open>nan\<close>; so for a snapshot in which no SSID and
  no channel is \<open>nan\<close>, all three sections are empty.
\<close>

theorem self_diff_empty_amended:
  "report_new_and_missing aps_I aps_I clients_I clients_I =
     Inr \<lparr>new_aps = [], missing_aps = [], new_clients = [], missing_clients = []\<rparr>
   \<and> report_client_changes clients_I clients_I = Inr []
   \<and> report_probed_ssid_analysis probes_I probes_I =
     \<lparr>newly_probed_ssids = [], no_longer_probed_ssids = []\<rparr>
   \<and> (\<exists>r. report_environmental_changes aps_I aps_I clients_I clients_I = Inr (r, [])
        \<and> set (map fst r) =
            {m. \<exists>a. map_of aps_I m = Some a \<and> (is_nan (ssid a) \<or> is_nan (channel a))})
   \<and> ((\<forall>(m, a) \<in> set aps_I. \<not> is_nan (ssid a) \<and> \<not> is_nan (channel a)) \<longrightarrow>
        report_environmental_changes aps_I aps_I clients_I clients_I = Inr ([], []))"
proof (intro conjI impI)
  show "report_new_and_missing aps_I aps_I clients_I clients_I =
     Inr \<lparr>new_aps = [], missing_aps = [], new_clients = [], missing_clients = []\<rparr>"
    by (simp add: report_new_and_missing_eq)
  show c: "report_client_changes clients_I clients_I = Inr []"
    by (simp add: report_client_changes_eq)
  show "report_probed_ssid_analysis probes_I probes_I =
     \<lparr>newly_probed_ssids = [], no_longer_probed_ssids = []\<rparr>"
    by (simp add: report_probed_ssid_analysis_def)
  show "\<exists>r. report_environmental_changes aps_I aps_I clients_I clients_I = Inr (r, [])
        \<and> set (map fst r) =
            {m. \<exists>a. map_of aps_I m = Some a \<and> (is_nan (ssid a) \<or> is_nan (channel a))}"
    using report_ap_changes_self [of aps_I] c
    by (auto simp: report_environmental_changes_def)
  show "report_environmental_changes aps_I aps_I clients_I clients_I = Inr ([], [])"
    if "\<forall>(m, a) \<in> set aps_I. \<not> is_nan (ssid a) \<and> \<not> is_nan (channel a)"
    using report_ap_changes_no_nan [OF that] c
    by (simp add: report_environmental_changes_def)
qed

text \<open>The example comparison snapshot holds no \<open>nan\<close>: its diff against itself is empty in
  all three sections.\<close>

theorem self_diff_empty_amended_witness:
  "list_all (\<lambda>(m, a). \<not> is_nan (ssid a) \<and> \<not> is_nan (channel a)) comp_aps_ex
   \<and> report_new_and_missing comp_aps_ex comp_aps_ex comp_clients_ex comp_clients_ex =
     Inr \<lparr>new_aps = [], missing_aps = [], new_clients = [], missing_clients = []\<rparr>
   \<and> report_environmental_changes comp_aps_ex comp_aps_ex comp_clients_ex comp_clients_ex
     = Inr ([], [])
   \<and> report_probed_ssid_analysis comp_probes_ex comp_probes_ex =
     \<lparr>newly_probed_ssids = [], no_longer_probed_ssids = []\<rparr>"
proof -
  have h: "list_all (\<lambda>(m, a). \<not> is_nan (ssid a) \<and> \<not> is_nan (channel a)) comp_aps_ex"
    by code_simp
  then have "\<forall>(m, a) \<in> set comp_aps_ex. \<not> is_nan (ssid a) \<and> \<not> is_nan (channel a)"
    by (simp add: list_all_iff)
  with h self_diff_empty_amended [of comp_aps_ex comp_clients_ex comp_probes_ex]
  show ?thesis
    by blast
qed

text \<open>
  Claim C8 as stated fails. \<open>json.loads\<close> decodes the literal \<open>NaN\<close> to the float \<open>nan\<close>,
  \<open>_process_device\<close> stores it as the channel, and \<open>_get_ap_changes\<close> compares the channel
  of the entry with itself by \<open>!=\<close>, which is true of \<open>nan\<close>: the diff of the snapshot
  built from one such record against itself reports a changed channel.
\<close>

theorem self_diff_nan_counterexample:
  "aps (parse_kismet_log
      [Some (ap_rec ''AA:AA'' (Some (JStr ''Cafe'')) (Some (JFloat Float_nan)) None)])
     = [(''AA:AA'', \<lparr>ssid = JStr ''Cafe'', channel = JFloat Float_nan, crypt = ''Unknown''\<rparr>)]
   \<and> report_environmental_changes
       [(''AA:AA'', \<lparr>ssid = JStr ''Cafe'', channel = JFloat Float_nan, crypt = ''Unknown''\<rparr>)]
       [(''AA:AA'', \<lparr>ssid = JStr ''Cafe'', channel = JFloat Float_nan, crypt = ''Unknown''\<rparr>)]
       [] []
     = Inr ([(''AA:AA'', JStr ''Cafe'',
              [Channel_changed (JFloat Float_nan) (JFloat Float_nan)])], [])
   \<and> report_environmental_changes
       [(''AA:AA'', \<lparr>ssid = JStr ''Cafe'', channel = JFloat Float_nan, crypt = ''Unknown''\<rparr>)]
       [(''AA:AA'', \<lparr>ssid = JStr ''Cafe'', channel = JFloat Float_nan, crypt = ''Unknown''\<rparr>)]
       [] []
     \<noteq> Inr ([], [])"
proof -
  have a: "aps (parse_kismet_log
      [Some (ap_rec ''AA:AA'' (Some (JStr ''Cafe'')) (Some (JFloat Float_nan)) None)])
     = [(''AA:AA'', \<lparr>ssid = JStr ''Cafe'', channel = JFloat Float_nan, crypt = ''Unknown''\<rparr>)]"
    by code_simp
  have b: "report_environmental_changes
       [(''AA:AA'', \<lparr>ssid = JStr ''Cafe'', channel = JFloat Float_nan, crypt = ''Unknown''\<rparr>)]
       [(''AA:AA'', \<lparr>ssid = JStr ''Cafe'', channel = JFloat Float_nan, crypt = ''Unknown''\<rparr>)]
       [] []
     = Inr ([(''AA:AA'', JStr ''Cafe'',
              [Channel_changed (JFloat Float_nan) (JFloat Float_nan)])], [])"
    by code_simp
  from a b show ?thesis
    by simp
qed

end
